theory Spec2Isabelle
  imports Complex_Main "HOL-Library.AList"
begin

section \<open>JavaScript values\<close>

text \<open>
  The dashboard components keep values that arrive as parsed JSON (\<open>response.json()\<close>,
  the \<open>data\<close> field of a push message, typed \<open>any\<close>) in their state without looking at
  them first. Such values are modelled by \<open>jsval\<close>. Numbers are real numbers: the rounding
  of IEEE doubles is not modelled here (it is for the privacy budget, whose percentage is
  rounded to an integer), and \<open>NaN\<close> and the infinities are left out. An object is an association list in which the first binding of a key is
  the one that is read.
\<close>

datatype jsval =
    JUndefined
  | JNull
  | JBool bool
  | JNum real
  | JStr string
  | JArr "jsval list"
  | JObj "(string \<times> jsval) list"

text \<open>Truthiness, as tested by \<open>if (v)\<close>, \<open>v ? a : b\<close> and \<open>v || d\<close>.\<close>

fun truthy :: "jsval \<Rightarrow> bool" where
  "truthy JUndefined = False"
| "truthy JNull = False"
| "truthy (JBool b) = b"
| "truthy (JNum x) = (x \<noteq> 0)"
| "truthy (JStr s) = (s \<noteq> [])"
| "truthy (JArr xs) = True"
| "truthy (JObj kvs) = True"

text \<open>
  \<open>v.k\<close> on a value that is neither \<open>null\<close> nor \<open>undefined\<close>. Arrays and strings have
  their \<open>length\<close>; their index keys and the methods of the prototypes are not modelled
  (no key read by the components names one).
\<close>

fun getProp :: "jsval \<Rightarrow> string \<Rightarrow> jsval" where
  "getProp (JObj kvs) k = (case map_of kvs k of Some v \<Rightarrow> v | None \<Rightarrow> JUndefined)"
| "getProp (JArr xs) k = (if k = ''length'' then JNum (real (length xs)) else JUndefined)"
| "getProp (JStr s) k = (if k = ''length'' then JNum (real (length s)) else JUndefined)"
| "getProp v k = JUndefined"

text \<open>\<open>v?.k\<close>: \<open>undefined\<close> when \<open>v\<close> is \<open>null\<close> or \<open>undefined\<close>, the property otherwise.\<close>

definition optChain :: "jsval \<Rightarrow> string \<Rightarrow> jsval" where
  "optChain v k = (if v = JNull \<or> v = JUndefined then JUndefined else getProp v k)"

text \<open>\<open>a || b\<close>.\<close>

definition jsOr :: "jsval \<Rightarrow> jsval \<Rightarrow> jsval" where
  "jsOr a b = (if truthy a then a else b)"

text \<open>Decimal digits of a natural number: the index keys of arrays and strings.\<close>

function decimal :: "nat \<Rightarrow> string" where
  "decimal n =
     (if n < 10 then [''0123456789'' ! n]
      else decimal (n div 10) @ [''0123456789'' ! (n mod 10)])"
  by pat_completeness auto
termination
  by (relation "measure (\<lambda>n. n)") auto

text \<open>
  The own enumerable properties copied by an object spread \<open>{...v}\<close>: the bindings of an
  object, the indexed elements of an array, the indexed characters of a string, and
  nothing for the other values.
\<close>

fun ownProps :: "jsval \<Rightarrow> (string \<times> jsval) list" where
  "ownProps (JObj kvs) = kvs"
| "ownProps (JArr xs) = zip (map decimal [0..<length xs]) xs"
| "ownProps (JStr s) = zip (map decimal [0..<length s]) (map (\<lambda>c. JStr [c]) s)"
| "ownProps v = []"

text \<open>
  An object literal \<open>{...prev, k1: v1, ..., kn: vn}\<close>: the properties of \<open>prev\<close>, then each
  \<open>ki\<close> set in turn (a key already there keeps its place and takes the new value).
\<close>

definition objectSpread :: "jsval \<Rightarrow> (string \<times> jsval) list \<Rightarrow> jsval" where
  "objectSpread prev kvs = JObj (fold (\<lambda>(k, v). AList.update k v) kvs (ownProps prev))"

text \<open>
  A rendered text. Template literals and JSX text are sequences of literal pieces and of
  numbers formatted by the runtime (\<open>x.toFixed(d)\<close>, \<open>x.toExponential(d)\<close>, the plain
  conversion of \<open>${x}\<close>); the formatting itself belongs to the JavaScript runtime and
  stays symbolic.
\<close>

datatype piece =
    Lit string
  | ToFixed real nat
  | ToExponential real nat
  | Num real

section \<open>The push channel\<close>

text \<open>
  \<open>useWebSocket("/ws")\<close> yields \<open>lastMessage\<close>: nothing before the first message, then the
  last envelope \<open>{type, data}\<close> received. The effects compare \<open>type\<close> with their tag by
  \<open>===\<close>; a \<open>type\<close> that is not a string differs from every tag, as any other string
  does, so \<open>type\<close> is a string here.
\<close>

record message =
  type :: string
  data :: jsval

section \<open>RealtimeMetrics\<close>

text \<open>The initial value of the \<open>metrics\<close> state (\<open>useState\<close>).\<close>

definition metrics0 :: jsval where
  "metrics0 = JObj
     [(''activeAnomalies'', JNum 0),
      (''flProgress'', JNum 0),
      (''privacyBudget'', JNum 6.0),
      (''modelAccuracy'', JNum 0),
      (''totalClients'', JNum 0),
      (''onlineClients'', JNum 0)]"

text \<open>
  The effect on \<open>initialMetrics\<close>, the data of the \<open>/api/status\<close> query (\<open>undefined\<close> until
  the fetch has resolved): the new \<open>metrics\<close> state from the previous one.
\<close>

definition RealtimeMetrics_initialMetrics :: "jsval \<Rightarrow> jsval \<Rightarrow> jsval" where
  "RealtimeMetrics_initialMetrics initialMetrics prev =
     (if truthy initialMetrics then
        objectSpread prev
          [(''totalClients'',
              jsOr (optChain (getProp initialMetrics ''devices'') ''total'') (JNum 0)),
           (''onlineClients'',
              jsOr (optChain (getProp initialMetrics ''devices'') ''online'') (JNum 0)),
           (''modelAccuracy'',
              jsOr (optChain (getProp initialMetrics ''performance'') ''accuracy'') (JNum 0.947)),
           (''activeAnomalies'',
              jsOr (optChain (getProp initialMetrics ''security'') ''recentAnomalies'') (JNum 0)),
           (''privacyBudget'',
              jsOr (optChain (getProp initialMetrics ''security'') ''privacyBudgetRemaining'')
                (JNum 6.0)),
           (''flProgress'',
              (if truthy (optChain (getProp initialMetrics ''fl'') ''currentRound'')
               then JNum 85 else JNum 0))]
      else prev)"

text \<open>The effect on \<open>lastMessage\<close>: the new \<open>metrics\<close> state from the previous one.\<close>

definition RealtimeMetrics_lastMessage :: "message option \<Rightarrow> jsval \<Rightarrow> jsval" where
  "RealtimeMetrics_lastMessage lastMessage metrics =
     (case lastMessage of
        None \<Rightarrow> metrics
      | Some m \<Rightarrow> if type m = ''metrics_update'' then data m else metrics)"

text \<open>
  The text of the Model Accuracy card for a numeric \<open>modelAccuracy\<close>:
  \<open>(metrics.modelAccuracy * 100).toFixed(1)\<close> followed by \<open>%\<close>.
\<close>

definition modelAccuracyText :: "real \<Rightarrow> piece list" where
  "modelAccuracyText modelAccuracy = [ToFixed (modelAccuracy * 100) 1, Lit ''%'']"

section \<open>AnomalyList\<close>

text \<open>
  The \<open>anomalies\<close> state is an array from the start (\<open>useState([])\<close>) and stays one: the
  effect on the \<open>/api/anomalies\<close> data stores it only under \<open>Array.isArray\<close>.
\<close>

definition AnomalyList_initialAnomalies :: "jsval \<Rightarrow> jsval list \<Rightarrow> jsval list" where
  "AnomalyList_initialAnomalies initialAnomalies anomalies =
     (case initialAnomalies of JArr xs \<Rightarrow> xs | _ \<Rightarrow> anomalies)"

text \<open>The effect on \<open>lastMessage\<close>: \<open>[lastMessage.data, ...prev.slice(0, 9)]\<close>.\<close>

definition AnomalyList_lastMessage :: "message option \<Rightarrow> jsval list \<Rightarrow> jsval list" where
  "AnomalyList_lastMessage lastMessage prev =
     (case lastMessage of
        None \<Rightarrow> prev
      | Some m \<Rightarrow> if type m = ''anomaly_detected'' then data m # take 9 prev else prev)"

text \<open>
  What the component renders can throw. For each element \<open>anomaly\<close> of
  \<open>anomalies.slice(0, 5)\<close> the render reads properties of \<open>anomaly\<close> (a \<open>TypeError\<close> on
  \<open>null\<close> and \<open>undefined\<close>), calls \<open>anomaly.severity.toLowerCase()\<close> in \<open>getSeverityBorderColor\<close> and
  \<open>anomaly.type.split('_')\<close> in \<open>formatAnomalyType\<close> (a \<open>TypeError\<close> unless the property is a
  string), and calls \<open>formatDistanceToNow(new Date(anomaly.detectedAt), ...)\<close>. The last
  is a function of the date-fns library, which is not part of the repository and throws
  on some dates; it is a parameter here, from the value of \<open>detectedAt\<close> to what it throws
  or the text it returns. Nothing else in the entry throws. The class names and labels
  computed from the two strings are not modelled, and neither is what React does with
  the elements the component returns.
\<close>

datatype exn = TypeError | RangeError

record card =
  entry :: jsval
  ago :: string

definition AnomalyList_entry :: "(jsval \<Rightarrow> exn + string) \<Rightarrow> jsval \<Rightarrow> exn + card" where
  "AnomalyList_entry formatDistanceToNow anomaly =
     (if anomaly = JNull \<or> anomaly = JUndefined then Inl TypeError
      else case getProp anomaly ''severity'' of
        JStr severity \<Rightarrow>
          (case getProp anomaly ''type'' of
             JStr anomalyType \<Rightarrow>
               (case formatDistanceToNow (getProp anomaly ''detectedAt'') of
                  Inl e \<Rightarrow> Inl e
                | Inr text \<Rightarrow> Inr \<lparr>entry = anomaly, ago = text\<rparr>)
           | _ \<Rightarrow> Inl TypeError)
      | _ \<Rightarrow> Inl TypeError)"

text \<open>\<open>xs.map(...)\<close> with a callback that can throw: the first throw ends it.\<close>

fun AnomalyList_entries :: "(jsval \<Rightarrow> exn + string) \<Rightarrow> jsval list \<Rightarrow> exn + card list" where
  "AnomalyList_entries formatDistanceToNow [] = Inr []"
| "AnomalyList_entries formatDistanceToNow (anomaly # rest) =
     (case AnomalyList_entry formatDistanceToNow anomaly of
        Inl e \<Rightarrow> Inl e
      | Inr c \<Rightarrow>
          (case AnomalyList_entries formatDistanceToNow rest of
             Inl e \<Rightarrow> Inl e
           | Inr cs \<Rightarrow> Inr (c # cs)))"

text \<open>
  What the card body shows: the empty notice, or one entry for each element of
  \<open>anomalies.slice(0, 5)\<close>.
\<close>

datatype feed = NoAnomaliesDetected | Entries "card list"

definition AnomalyList_feed :: "(jsval \<Rightarrow> exn + string) \<Rightarrow> jsval list \<Rightarrow> exn + feed" where
  "AnomalyList_feed formatDistanceToNow anomalies =
     (if length anomalies = 0 then Inr NoAnomaliesDetected
      else case AnomalyList_entries formatDistanceToNow (take 5 anomalies) of
        Inl e \<Rightarrow> Inl e
      | Inr cards \<Rightarrow> Inr (Entries cards))"

section \<open>PrivacyControls\<close>

subsection \<open>The numbers of the budget\<close>

text \<open>
  The percentage of the budget is rounded to an integer, so the rounding of the double
  arithmetic before it decides what is shown. Here the numbers are IEEE 754 binary64
  values: a real number that has such a representation, or an infinity. \<open>NaN\<close> is left
  out, since neither reading a JSON number nor dividing by 6.0 or multiplying by 100
  yields one; the two zeros are one, since they are shown alike.
\<close>

datatype number = Finite real | PlusInfinity | MinusInfinity

text \<open>\<open>\<lfloor>log\<^sub>2 x\<rfloor>\<close> for \<open>1 \<le> x\<close>, and for \<open>0 < x < 1\<close>.\<close>

function log2_up :: "real \<Rightarrow> int" where
  "log2_up x = (if x < 2 then 0 else log2_up (x / 2) + 1)"
  by pat_completeness auto
termination
proof (relation "measure (\<lambda>x. nat \<lfloor>x\<rfloor>)")
  show "wf (measure (\<lambda>x::real. nat \<lfloor>x\<rfloor>))" by simp
next
  fix x :: real
  assume "\<not> x < 2"
  then have "\<lfloor>x / 2\<rfloor> < \<lfloor>x\<rfloor>" and "0 < \<lfloor>x\<rfloor>"
    by linarith+
  then have "nat \<lfloor>x / 2\<rfloor> < nat \<lfloor>x\<rfloor>" by linarith
  then show "(x / 2, x) \<in> measure (\<lambda>x. nat \<lfloor>x\<rfloor>)" by (simp only: in_measure)
qed

function log2_down :: "real \<Rightarrow> int" where
  "log2_down x = (if x \<le> 0 \<or> 1 \<le> x then 0 else log2_down (2 * x) - 1)"
  by pat_completeness auto
termination
proof (relation "measure (\<lambda>x. nat \<lceil>1 / x\<rceil>)")
  show "wf (measure (\<lambda>x::real. nat \<lceil>1 / x\<rceil>))" by simp
next
  fix x :: real
  assume "\<not> (x \<le> 0 \<or> 1 \<le> x)"
  then have x: "0 < x" "x < 1" by simp_all
  then have y: "1 < 1 / x" by simp
  then have c: "2 \<le> \<lceil>1 / x\<rceil>" by linarith
  have "1 / (2 * x) = (1 / x) / 2" by simp
  also have "\<dots> \<le> of_int \<lceil>1 / x\<rceil> / 2" by (simp add: divide_right_mono)
  also have "\<dots> \<le> of_int (\<lceil>1 / x\<rceil> - 1)" using c by simp
  finally have "\<lceil>1 / (2 * x)\<rceil> \<le> \<lceil>1 / x\<rceil> - 1" by (rule ceiling_le)
  with c have "nat \<lceil>1 / (2 * x)\<rceil> < nat \<lceil>1 / x\<rceil>" by linarith
  then show "(2 * x, x) \<in> measure (\<lambda>x. nat \<lceil>1 / x\<rceil>)" by (simp only: in_measure)
qed

declare log2_up.simps [simp del] log2_down.simps [simp del]

definition exponent :: "real \<Rightarrow> int" where
  "exponent x = (if 1 \<le> \<bar>x\<bar> then log2_up \<bar>x\<bar> else log2_down \<bar>x\<bar>)"

definition pow2 :: "int \<Rightarrow> real" where
  "pow2 k = (if 0 \<le> k then 2 ^ nat k else 1 / 2 ^ nat (- k))"

text \<open>The nearest integer, a half going to the even one.\<close>

definition round_even :: "real \<Rightarrow> int" where
  "round_even y =
     (if y - of_int \<lfloor>y\<rfloor> < 1 / 2 then \<lfloor>y\<rfloor>
      else if 1 / 2 < y - of_int \<lfloor>y\<rfloor> then \<lfloor>y\<rfloor> + 1
      else if even \<lfloor>y\<rfloor> then \<lfloor>y\<rfloor> else \<lfloor>y\<rfloor> + 1)"

text \<open>
  The double nearest to a real number (round to nearest, ties to even): 53 significant
  bits, the exponent of the leading bit no less than -1022 (below that the spacing stays
  \<open>2\<^sup>-\<^sup>1\<^sup>0\<^sup>7\<^sup>4\<close>), and an infinity when the rounded value reaches \<open>2\<^sup>1\<^sup>0\<^sup>2\<^sup>4\<close>. This is how a
  number of a JSON body is read and how the result of an arithmetic operation is
  rounded.
\<close>

definition double :: "real \<Rightarrow> number" where
  "double x =
     (let q = pow2 (max (exponent x) (- 1022) - 52);
          r = of_int (round_even (x / q)) * q
      in if 2 ^ 1024 \<le> r then PlusInfinity
         else if r \<le> - (2 ^ 1024) then MinusInfinity
         else Finite r)"

text \<open>\<open>x / c\<close> and \<open>x * c\<close> for a double \<open>c\<close> that is finite and positive.\<close>

definition number_div :: "number \<Rightarrow> real \<Rightarrow> number" where
  "number_div x c =
     (case x of
        Finite a \<Rightarrow> double (a / c)
      | PlusInfinity \<Rightarrow> PlusInfinity
      | MinusInfinity \<Rightarrow> MinusInfinity)"

definition number_times :: "number \<Rightarrow> real \<Rightarrow> number" where
  "number_times x c =
     (case x of
        Finite a \<Rightarrow> double (a * c)
      | PlusInfinity \<Rightarrow> PlusInfinity
      | MinusInfinity \<Rightarrow> MinusInfinity)"

text \<open>
  \<open>Math.round\<close>: the nearest integer, a half going up; the integer is a double again. An
  infinity stays.
\<close>

definition Math_round :: "number \<Rightarrow> number" where
  "Math_round x =
     (case x of
        Finite a \<Rightarrow> Finite (of_int \<lfloor>a + 1 / 2\<rfloor>)
      | PlusInfinity \<Rightarrow> PlusInfinity
      | MinusInfinity \<Rightarrow> MinusInfinity)"


subsection \<open>The component\<close>







section \<open>AnomalyAnalysis: data\<close>

datatype Status = Uploaded | Processing | Analyzed | Error

datatype Severity = Low | Medium | High | Critical | Uncertain

datatype RecommendedAction = Manual_review | Alert | NoAction

record BoundingBox =
  class_name :: string
  confidence_bb :: real
  bbox :: "real \<times> real \<times> real \<times> real"
  is_anomaly :: bool
  priority :: string

record PrivacyImpact =
  epsilon_pi :: real
  delta_pi :: real

record Metadata =
  fileType :: string
  analysisMethod :: string
  source :: string
  timestamp :: string
  confidenceThreshold :: "real option"
  privacy_impact :: PrivacyImpact

record AnomalyResult =
  anomalyDetected :: bool
  anomalyType :: string
  severity :: Severity
  confidence :: real
  description :: string
  modelUsed :: string
  processingTime :: real
  recommendedAction :: "RecommendedAction option"
  bounding_boxes :: "BoundingBox list option"
  metadata :: Metadata

record UploadedFile =
  id_uf :: string
  filename :: string
  originalName :: string
  mimeType :: string
  size_uf :: nat
  status :: Status
  analysisResults :: "AnomalyResult option"
  uploadedAt :: string
  imageUrl :: "string option"

text \<open>The browser's \<open>File\<close>, as far as the component reads it.\<close>

record File =
  name :: string
  size_file :: nat
  type_file :: string

datatype Variant = Default | Destructive

record toast =
  title :: string
  description_toast :: "piece list"
  variant :: Variant

text \<open>The state of the component (\<open>useState\<close>) and the notices it has raised.\<close>

record AnomalyAnalysis =
  uploadedFiles :: "UploadedFile list"
  selectedResult :: "AnomalyResult option"
  selectedFileId :: "string option"
  isUploading :: bool
  toasts :: "toast list"
  console :: "string list"

section \<open>AnomalyAnalysis: onDrop\<close>

definition allowedTypes :: "string list" where
  "allowedTypes =
     [''image/jpeg'', ''image/jpg'', ''image/png'', ''image/gif'',
      ''video/mp4'', ''video/avi'', ''video/mov'', ''video/mkv'']"

definition fileTooLarge :: toast where
  "fileTooLarge =
     \<lparr>title = ''File Too Large'',
      description_toast = [Lit ''Please upload files smaller than 50MB''],
      variant = Destructive\<rparr>"

definition invalidFileType :: toast where
  "invalidFileType =
     \<lparr>title = ''Invalid File Type'',
      description_toast =
        [Lit ''Please upload images (JPEG, PNG, GIF) or videos (MP4, AVI, MOV, MKV)''],
      variant = Destructive\<rparr>"

text \<open>
  The body of the \<open>forEach\<close> of \<open>onDrop\<close> for one file: \<open>Inl\<close> the notice shown when the
  file is turned away, \<open>Inr\<close> the file when \<open>uploadFile(file)\<close> is called.
\<close>

definition onDrop_file :: "File \<Rightarrow> toast + File" where
  "onDrop_file file =
     (if size_file file > 50 * 1024 * 1024 then Inl fileTooLarge
      else if type_file file \<notin> set allowedTypes then Inl invalidFileType
      else Inr file)"

definition onDrop :: "File list \<Rightarrow> (toast + File) list" where
  "onDrop acceptedFiles = map onDrop_file acceptedFiles"

section \<open>AnomalyAnalysis: uploadFile and its poll loop\<close>

text \<open>
  \<open>uploadFile\<close> is asynchronous. It sets \<open>isUploading\<close> at once; the rest runs when the
  \<open>POST /api/upload\<close> has settled. On success it appends the record of the response to
  \<open>uploadedFiles\<close> and registers two timers, one after the other in the same turn of the
  event loop: \<open>setInterval(poll, 2000)\<close> and \<open>setTimeout(() => clearInterval(pollInterval),
  60000)\<close>.

  A \<open>loop\<close> is the state of the component together with the state of the timers and
  fetches of one such upload:
  \<^item> \<open>pollInterval\<close>: the interval is registered and has not been cleared;
  \<^item> \<open>timeoutPending\<close>: the 60000 ms timer has not fired yet;
  \<^item> \<open>now\<close>: the milliseconds elapsed since the timers were registered;
  \<^item> \<open>nextTick\<close>: when the interval is next due;
  \<^item> \<open>pollTimes\<close>: the times at which the interval's callback has been started so far;
  \<^item> \<open>pending\<close>: the numbers of the polls (1, 2, ...) whose fetch has not settled yet.
  Timers are idealised: a timer runs at the millisecond it is due, not later. The other
  actors on the component's state (the loops of other uploads, clicks) are not part of the
  model.
\<close>

record loop = AnomalyAnalysis +
  pollInterval :: bool
  timeoutPending :: bool
  now :: nat
  nextTick :: nat
  pollTimes :: "nat list"
  pending :: "nat list"

text \<open>
  How the \<open>POST /api/upload\<close> settles: something is thrown (by \<open>fetch\<close> or by
  \<open>response.json()\<close>; an \<open>Error\<close> carries a message), the response is not \<open>ok\<close>, or the
  response is \<open>ok\<close> and its body is the record of the upload.
\<close>

datatype upload_outcome = Threw "string option" | NotOk | Ok UploadedFile

definition uploadFile_begin :: "AnomalyAnalysis \<Rightarrow> AnomalyAnalysis" where
  "uploadFile_begin st = st\<lparr>isUploading := True\<rparr>"

definition uploadFailed :: "string \<Rightarrow> toast" where
  "uploadFailed message =
     \<lparr>title = ''Upload Failed'', description_toast = [Lit message], variant = Destructive\<rparr>"

definition fileUploaded :: "File \<Rightarrow> toast" where
  "fileUploaded file =
     \<lparr>title = ''File Uploaded'',
      description_toast = [Lit (name file), Lit '' uploaded successfully. Analysis in progress...''],
      variant = Default\<rparr>"

text \<open>The component's state with no timer registered, and with both timers registered.\<close>

definition noTimers :: "AnomalyAnalysis \<Rightarrow> loop" where
  "noTimers st =
     \<lparr>uploadedFiles = uploadedFiles st, selectedResult = selectedResult st,
      selectedFileId = selectedFileId st, isUploading = isUploading st,
      toasts = toasts st, console = console st,
      pollInterval = False, timeoutPending = False, now = 0, nextTick = 0,
      pollTimes = [], pending = []\<rparr>"

definition setTimers :: "AnomalyAnalysis \<Rightarrow> loop" where
  "setTimers st = (noTimers st)\<lparr>pollInterval := True, timeoutPending := True, nextTick := 2000\<rparr>"

definition uploadFile_settled :: "File \<Rightarrow> upload_outcome \<Rightarrow> AnomalyAnalysis \<Rightarrow> loop" where
  "uploadFile_settled file outcome st =
     (case outcome of
        Ok uploadedFile \<Rightarrow>
          (setTimers (st\<lparr>uploadedFiles := uploadedFiles st @ [uploadedFile]\<rparr>))
            \<lparr>toasts := toasts st @ [fileUploaded file], isUploading := False\<rparr>
      | NotOk \<Rightarrow>
          noTimers (st\<lparr>toasts := toasts st @ [uploadFailed ''Upload failed''],
                       isUploading := False\<rparr>)
      | Threw message \<Rightarrow>
          noTimers (st\<lparr>toasts := toasts st @
                         [uploadFailed (case message of Some m \<Rightarrow> m
                                        | None \<Rightarrow> ''Failed to upload file'')],
                       isUploading := False\<rparr>))"

text \<open>
  How the \<open>GET /api/uploads\<close> of one poll settles: the \<open>try\<close> block throws before it
  reaches \<open>files.find\<close> (the fetch rejects, the body is not JSON, the body has no \<open>find\<close>),
  or the body is a list of records.
\<close>

datatype response = Rejected | Files "UploadedFile list"

definition analysisComplete :: "UploadedFile \<Rightarrow> toast" where
  "analysisComplete currentFile =
     \<lparr>title = ''Analysis Complete'',
      description_toast =
        (case analysisResults currentFile of
           Some r \<Rightarrow>
             if anomalyDetected r
             then [Lit (anomalyType r), Lit '' detected with '',
                   ToFixed (confidence r * 100) 1, Lit ''% confidence'']
             else [Lit ''No anomalies detected'']
         | None \<Rightarrow> [Lit ''No anomalies detected'']),
      variant =
        (case analysisResults currentFile of
           Some r \<Rightarrow> if anomalyDetected r then Destructive else Default
         | None \<Rightarrow> Default)\<rparr>"

text \<open>
  The interval's callback after its \<open>await\<close>s, for the upload whose record
  \<open>uploadedFile\<close> the callback has captured.
\<close>

definition poll_settled :: "UploadedFile \<Rightarrow> response \<Rightarrow> loop \<Rightarrow> loop" where
  "poll_settled uploadedFile r s =
     (case r of
        Rejected \<Rightarrow>
          s\<lparr>console := console s @ [''Failed to fetch analysis results:''],
            pollInterval := False\<rparr>
      | Files files \<Rightarrow>
          (case find (\<lambda>f. id_uf f = id_uf uploadedFile) files of
             None \<Rightarrow> s
           | Some currentFile \<Rightarrow>
               if status currentFile \<noteq> Uploaded \<and> status currentFile \<noteq> Processing then
                 s\<lparr>uploadedFiles :=
                     map (\<lambda>f. if id_uf f = id_uf uploadedFile then currentFile else f)
                       (uploadedFiles s),
                   selectedResult :=
                     (if status currentFile = Analyzed \<and> analysisResults currentFile \<noteq> None
                      then analysisResults currentFile else selectedResult s),
                   pollInterval := False,
                   toasts :=
                     (if status currentFile = Analyzed
                      then toasts s @ [analysisComplete currentFile] else toasts s)\<rparr>
               else s))"

text \<open>
  What can happen to a loop: time passes (never past a timer that is due), the interval
  fires and its callback starts a fetch, the 60000 ms timer fires and clears the interval,
  or the fetch of a poll settles and the callback goes on from its \<open>await\<close>. \<open>exec\<close> is
  \<open>None\<close> when the event cannot happen in the state. At 60000 ms the interval (for the
  30th time) and the timer are both due, and either may run first. A fetch may take any
  time to settle, so the callbacks of several polls can be suspended at once, and a
  callback suspended when the interval is cleared still runs to its end:
  \<open>clearInterval\<close> only keeps the interval from firing again.
\<close>

datatype event = Elapse nat | IntervalFires | TimeoutFires | FetchSettles nat response

definition exec :: "UploadedFile \<Rightarrow> event \<Rightarrow> loop \<Rightarrow> loop option" where
  "exec uploadedFile e s =
     (case e of
        Elapse d \<Rightarrow>
          if 0 < d \<and> (pollInterval s \<longrightarrow> now s + d \<le> nextTick s)
                   \<and> (timeoutPending s \<longrightarrow> now s + d \<le> 60000)
          then Some (s\<lparr>now := now s + d\<rparr>) else None
      | IntervalFires \<Rightarrow>
          if pollInterval s \<and> now s = nextTick s
          then Some (s\<lparr>nextTick := nextTick s + 2000,
                       pollTimes := pollTimes s @ [now s],
                       pending := pending s @ [Suc (length (pollTimes s))]\<rparr>)
          else None
      | TimeoutFires \<Rightarrow>
          if timeoutPending s \<and> now s = 60000
          then Some (s\<lparr>pollInterval := False, timeoutPending := False\<rparr>) else None
      | FetchSettles k r \<Rightarrow>
          if k \<in> set (pending s)
          then Some (poll_settled uploadedFile r (s\<lparr>pending := removeAll k (pending s)\<rparr>))
          else None)"

fun run :: "UploadedFile \<Rightarrow> event list \<Rightarrow> loop \<Rightarrow> loop option" where
  "run uploadedFile [] s = Some s"
| "run uploadedFile (e # es) s =
     (case exec uploadedFile e s of
        None \<Rightarrow> None
      | Some s' \<Rightarrow> run uploadedFile es s')"

section \<open>AnomalyAnalysis: the selected result and its overlays\<close>

text \<open>The click on an entry of the results list.\<close>

definition onClick :: "UploadedFile \<Rightarrow> 'a AnomalyAnalysis_scheme \<Rightarrow> 'a AnomalyAnalysis_scheme" where
  "onClick file st =
     (if analysisResults file \<noteq> None
      then st\<lparr>selectedResult := analysisResults file, selectedFileId := Some (id_uf file)\<rparr>
      else st)"

text \<open>
  \<open>uploadedFiles.find(f => f.id === selectedFileId)?.imageUrl\<close>, when it is truthy (a
  non-empty string).
\<close>

definition shownImageUrl :: "'a AnomalyAnalysis_scheme \<Rightarrow> string option" where
  "shownImageUrl st =
     (case find (\<lambda>f. Some (id_uf f) = selectedFileId st) (uploadedFiles st) of
        None \<Rightarrow> None
      | Some f \<Rightarrow>
          (case imageUrl f of
             None \<Rightarrow> None
           | Some url \<Rightarrow> if url = [] then None else Some url))"

text \<open>The absolutely positioned box drawn over the image; the four lengths are in \<open>px\<close>.\<close>

record overlay =
  left_px :: real
  top_px :: real
  width_px :: real
  height_px :: real
  red :: bool
  label :: "piece list"

definition overlayOf :: "BoundingBox \<Rightarrow> overlay" where
  "overlayOf b =
     (case bbox b of (x1, y1, x2, y2) \<Rightarrow>
        let boxWidth = x2 - x1;
            boxHeight = y2 - y1;
            containerWidth = 512;
            containerHeight = 256;
            scaleX = containerWidth / 640;
            scaleY = containerHeight / 480
        in \<lparr>left_px = x1 * scaleX,
            top_px = y1 * scaleY,
            width_px = boxWidth * scaleX,
            height_px = boxHeight * scaleY,
            red = is_anomaly b,
            label = [Lit (class_name b), Lit '' ('', ToFixed (confidence_bb b * 100) 0,
                     Lit ''%)'']\<rparr>)"

text \<open>
  The overlays of the result panel: none without a selected result, without bounding
  boxes or without a shown image, otherwise one for each bounding box, in order.
\<close>

definition overlays :: "'a AnomalyAnalysis_scheme \<Rightarrow> overlay list" where
  "overlays st =
     (case selectedResult st of
        None \<Rightarrow> []
      | Some r \<Rightarrow>
          (case bounding_boxes r of
             None \<Rightarrow> []
           | Some boxes \<Rightarrow>
               if length boxes > 0 \<and> shownImageUrl st \<noteq> None
               then map overlayOf boxes else []))"

section \<open>The invariant of a poll loop\<close>

text \<open>
  What holds of every loop that \<open>uploadFile\<close> has started, whatever has happened to it
  since: while the interval is registered the 60000 ms timer is pending too; a pending
  timer is not overdue; the interval is next due 2000 ms after its last firing; so far it
  has fired at 2000, 4000, ... and at most 30 times; and the polls in flight are among
  those started.
\<close>

definition wf :: "loop \<Rightarrow> bool" where
  "wf s \<longleftrightarrow>
     (pollInterval s \<longrightarrow> timeoutPending s)
   \<and> (timeoutPending s \<longrightarrow> now s \<le> 60000)
   \<and> (pollInterval s \<longrightarrow>
        now s \<le> nextTick s \<and> nextTick s = 2000 * Suc (length (pollTimes s)))
   \<and> pollTimes s = map (\<lambda>k. 2000 * k) [1..<Suc (length (pollTimes s))]
   \<and> length (pollTimes s) \<le> 30
   \<and> set (pending s) \<subseteq> {1..length (pollTimes s)}"

section \<open>Example runs\<close>

text \<open>
  The component as mounted, one upload and its record in three stages of the analysis,
  and the loop of that upload at some moments of its life.
\<close>

definition AnomalyAnalysis0 :: AnomalyAnalysis where
  "AnomalyAnalysis0 =
     \<lparr>uploadedFiles = [], selectedResult = None, selectedFileId = None, isUploading = False,
      toasts = [], console = []\<rparr>"

definition example_result :: AnomalyResult where
  "example_result =
     \<lparr>anomalyDetected = True, anomalyType = ''intrusion'', severity = High, confidence = 0.9,
      description = ''person at the fence'', modelUsed = ''yolo'', processingTime = 120,
      recommendedAction = Some Alert,
      bounding_boxes = Some
        [\<lparr>class_name = ''person'', confidence_bb = 0.9, bbox = (64, 48, 320, 240),
          is_anomaly = True, priority = ''high''\<rparr>],
      metadata =
        \<lparr>fileType = ''image'', analysisMethod = ''fusion'', source = ''upload'',
         timestamp = ''2024-01-01T00:00:00Z'', confidenceThreshold = None,
         privacy_impact = \<lparr>epsilon_pi = 0.1, delta_pi = 0.00001\<rparr>\<rparr>\<rparr>"

definition example_upload :: UploadedFile where
  "example_upload =
     \<lparr>id_uf = ''u1'', filename = ''u1.jpg'', originalName = ''gate.jpg'',
      mimeType = ''image/jpeg'', size_uf = 1000, status = Uploaded, analysisResults = None,
      uploadedAt = ''2024-01-01T00:00:00Z'', imageUrl = Some ''/uploads/u1.jpg''\<rparr>"

definition example_file :: File where
  "example_file = \<lparr>name = ''gate.jpg'', size_file = 1000, type_file = ''image/jpeg''\<rparr>"

definition example_loop :: loop where
  "example_loop = uploadFile_settled example_file (Ok example_upload) AnomalyAnalysis0"

definition example_analyzed :: UploadedFile where
  "example_analyzed = example_upload\<lparr>status := Analyzed, analysisResults := Some example_result\<rparr>"

definition example_unfinished :: UploadedFile where
  "example_unfinished = example_upload\<lparr>status := Analyzed\<rparr>"

text \<open>\<open>n\<close> rounds of the interval: 2000 ms pass and the interval fires.\<close>

fun ticks :: "nat \<Rightarrow> event list" where
  "ticks 0 = []"
| "ticks (Suc n) = ticks n @ [Elapse 2000, IntervalFires]"

definition late_trace :: "event list" where
  "late_trace = ticks 29 @ [Elapse 2000, TimeoutFires, Elapse 500]"

definition example_polling :: loop where
  "example_polling =
     example_loop\<lparr>now := 2000, nextTick := 4000, pollTimes := [2000], pending := [1]\<rparr>"

definition example_both_polling :: loop where
  "example_both_polling =
     example_loop\<lparr>now := 4000, nextTick := 6000, pollTimes := [2000, 4000], pending := [1, 2]\<rparr>"

definition example_timed_out :: loop where
  "example_timed_out =
     example_loop\<lparr>pollInterval := False, timeoutPending := False, now := 60000,
       nextTick := 62000, pollTimes := map (\<lambda>k. 2000 * k) [1..<31], pending := [1..<31]\<rparr>"

text \<open>An anomaly as the backend sends it, and a date-fns that never throws.\<close>

definition example_anomaly :: "string \<Rightarrow> jsval" where
  "example_anomaly i =
     JObj [(''id'', JStr i), (''type'', JStr ''intrusion_detected''), (''confidence'', JNum 0.9),
           (''severity'', JStr ''high''), (''detectedAt'', JStr ''2024-01-01T00:00:00Z'')]"

definition example_ago :: "jsval \<Rightarrow> exn + string" where
  "example_ago detectedAt = Inr ''5 minutes ago''"

section \<open>Properties of the push handlers\<close>

lemma AnomalyList_entry_Inr:
  "AnomalyList_entry f a = Inr c \<Longrightarrow> entry c = a"
  by (auto simp: AnomalyList_entry_def split: if_splits jsval.splits sum.splits)

lemma AnomalyList_entry_renders:
  "(\<exists>c. AnomalyList_entry f a = Inr c) \<longleftrightarrow>
     a \<noteq> JNull \<and> a \<noteq> JUndefined
     \<and> (\<exists>s. getProp a ''severity'' = JStr s) \<and> (\<exists>t. getProp a ''type'' = JStr t)
     \<and> (\<exists>text. f (getProp a ''detectedAt'') = Inr text)"
  by (auto simp: AnomalyList_entry_def split: jsval.splits sum.splits)

lemma AnomalyList_entries_Inr:
  "AnomalyList_entries f as = Inr cs \<Longrightarrow> map entry cs = as"
proof (induction as arbitrary: cs)
  case Nil
  then show ?case by simp
next
  case (Cons a as)
  then show ?case
    by (auto split: sum.splits dest: AnomalyList_entry_Inr)
qed

lemma AnomalyList_entries_renders:
  "(\<forall>a \<in> set as. \<exists>c. AnomalyList_entry f a = Inr c) \<Longrightarrow> \<exists>cs. AnomalyList_entries f as = Inr cs"
  by (induction as) (auto split: sum.splits)

lemma AnomalyList_feed_Entries:
  assumes "AnomalyList_feed f anomalies = Inr (Entries cards)"
  shows "map entry cards = take 5 anomalies" and "length cards \<le> 5"
proof -
  from assms have "AnomalyList_entries f (take 5 anomalies) = Inr cards"
    by (auto simp: AnomalyList_feed_def split: if_splits sum.splits)
  then show m: "map entry cards = take 5 anomalies"
    by (rule AnomalyList_entries_Inr)
  have "length cards = length (map entry cards)" by simp
  also have "\<dots> \<le> 5" unfolding m by simp
  finally show "length cards \<le> 5" .
qed

text \<open>
  C2. On a push message of type \<open>anomaly_detected\<close> the new list is the message's data
  followed by the first 9 elements of the previous list; it has at most 10 elements and
  one more than the previous list when that had fewer than 10. Of any list of anomalies,
  however long, the render looks at the first 5 only: when it shows entries, they are
  those of the first 5 anomalies, in order, and so at most 5; it shows the empty notice
  exactly for the empty list; and it does show entries when the list is not empty and
  each of its first 5 elements renders (otherwise the render throws and nothing is
  shown).
\<close>

theorem anomaly_detected_retained:
  assumes "type m = ''anomaly_detected''"
  shows "AnomalyList_lastMessage (Some m) prev = data m # take 9 prev
       \<and> length (AnomalyList_lastMessage (Some m) prev) \<le> 10
       \<and> (length prev < 10 \<longrightarrow>
            length (AnomalyList_lastMessage (Some m) prev) = length prev + 1)
       \<and> (\<forall>formatDistanceToNow anomalies.
            AnomalyList_feed formatDistanceToNow anomalies
              = AnomalyList_feed formatDistanceToNow (take 5 anomalies)
            \<and> (\<forall>cards. AnomalyList_feed formatDistanceToNow anomalies = Inr (Entries cards) \<longrightarrow>
                  map entry cards = take 5 anomalies \<and> length cards \<le> 5)
            \<and> (AnomalyList_feed formatDistanceToNow anomalies = Inr NoAnomaliesDetected
                  \<longleftrightarrow> anomalies = [])
            \<and> (anomalies \<noteq> []
                \<and> (\<forall>a \<in> set (take 5 anomalies).
                      \<exists>c. AnomalyList_entry formatDistanceToNow a = Inr c) \<longrightarrow>
                  (\<exists>cards. AnomalyList_feed formatDistanceToNow anomalies = Inr (Entries cards))))"
proof -
  have push: "AnomalyList_lastMessage (Some m) prev = data m # take 9 prev"
    using assms by (simp add: AnomalyList_lastMessage_def)
  have len: "length (data m # take 9 prev) \<le> 10"
    and grows: "length prev < 10 \<longrightarrow> length (data m # take 9 prev) = length prev + 1"
    by simp_all
  have first5: "AnomalyList_feed f anomalies = AnomalyList_feed f (take 5 anomalies)"
    for f and anomalies :: "jsval list"
    by (cases anomalies) (simp_all add: AnomalyList_feed_def)
  have shown: "map entry cards = take 5 anomalies \<and> length cards \<le> 5"
    if "AnomalyList_feed f anomalies = Inr (Entries cards)" for f anomalies cards
    using AnomalyList_feed_Entries [OF that] by blast
  have empty: "AnomalyList_feed f anomalies = Inr NoAnomaliesDetected \<longleftrightarrow> anomalies = []"
    for f anomalies
    by (auto simp: AnomalyList_feed_def split: sum.splits)
  have renders: "\<exists>cards. AnomalyList_feed f anomalies = Inr (Entries cards)"
    if "anomalies \<noteq> []"
      and "\<forall>a \<in> set (take 5 anomalies). \<exists>c. AnomalyList_entry f a = Inr c"
    for f anomalies
  proof -
    from AnomalyList_entries_renders [OF that(2)]
    obtain cs where "AnomalyList_entries f (take 5 anomalies) = Inr cs" ..
    with that(1) show ?thesis by (simp add: AnomalyList_feed_def)
  qed
  from len grows first5 shown empty renders show ?thesis
    unfolding push by blast
qed

theorem anomaly_detected_retained_witness:
  "type \<lparr>type = ''anomaly_detected'', data = example_anomaly ''door''\<rparr> = ''anomaly_detected''
   \<and> AnomalyList_lastMessage
       (Some \<lparr>type = ''anomaly_detected'', data = example_anomaly ''door''\<rparr>)
       (map example_anomaly
          [''gate'', ''dock'', ''yard'', ''roof'', ''hall'', ''lift'', ''ramp'', ''shed'', ''lane'', ''pier''])
     = map example_anomaly
         [''door'', ''gate'', ''dock'', ''yard'', ''roof'', ''hall'', ''lift'', ''ramp'', ''shed'', ''lane'']
   \<and> AnomalyList_feed example_ago
       (map example_anomaly
          [''door'', ''gate'', ''dock'', ''yard'', ''roof'', ''hall'', ''lift'', ''ramp'', ''shed'', ''lane''])
     = Inr (Entries
         [\<lparr>entry = example_anomaly ''door'', ago = ''5 minutes ago''\<rparr>,
          \<lparr>entry = example_anomaly ''gate'', ago = ''5 minutes ago''\<rparr>,
          \<lparr>entry = example_anomaly ''dock'', ago = ''5 minutes ago''\<rparr>,
          \<lparr>entry = example_anomaly ''yard'', ago = ''5 minutes ago''\<rparr>,
          \<lparr>entry = example_anomaly ''roof'', ago = ''5 minutes ago''\<rparr>])
   \<and> AnomalyList_feed example_ago [JStr ''a''] = Inl TypeError"
proof -
  have e: "AnomalyList_entry example_ago (example_anomaly i)
      = Inr \<lparr>entry = example_anomaly i, ago = ''5 minutes ago''\<rparr>" for i
    by (simp add: AnomalyList_entry_def example_anomaly_def example_ago_def)
  have shown: "AnomalyList_feed example_ago
       (map example_anomaly
          [''door'', ''gate'', ''dock'', ''yard'', ''roof'', ''hall'', ''lift'', ''ramp'', ''shed'', ''lane''])
     = Inr (Entries
         [\<lparr>entry = example_anomaly ''door'', ago = ''5 minutes ago''\<rparr>,
          \<lparr>entry = example_anomaly ''gate'', ago = ''5 minutes ago''\<rparr>,
          \<lparr>entry = example_anomaly ''dock'', ago = ''5 minutes ago''\<rparr>,
          \<lparr>entry = example_anomaly ''yard'', ago = ''5 minutes ago''\<rparr>,
          \<lparr>entry = example_anomaly ''roof'', ago = ''5 minutes ago''\<rparr>])"
    by (simp add: AnomalyList_feed_def e)
  have throws: "AnomalyList_feed example_ago [JStr ''a''] = Inl TypeError"
    by (simp add: AnomalyList_feed_def AnomalyList_entry_def)
  from anomaly_detected_retained
    [of "\<lparr>type = ''anomaly_detected'', data = example_anomaly ''door''\<rparr>"
        "map example_anomaly
           [''gate'', ''dock'', ''yard'', ''roof'', ''hall'', ''lift'', ''ramp'', ''shed'', ''lane'', ''pier'']",
     THEN conjunct1]
  have "AnomalyList_lastMessage
       (Some \<lparr>type = ''anomaly_detected'', data = example_anomaly ''door''\<rparr>)
       (map example_anomaly
          [''gate'', ''dock'', ''yard'', ''roof'', ''hall'', ''lift'', ''ramp'', ''shed'', ''lane'', ''pier''])
     = map example_anomaly
         [''door'', ''gate'', ''dock'', ''yard'', ''roof'', ''hall'', ''lift'', ''ramp'', ''shed'', ''lane'']"
    by simp
  with shown throws show ?thesis by simp
qed

text \<open>
  C3. On a push message of type \<open>metrics_update\<close> the new \<open>metrics\<close> state is the message's
  data, whatever that value is (an object of another shape, a string, \<open>null\<close>) and
  whatever the previous state was: nothing of the previous state survives.
\<close>

theorem metrics_update_replaces:
  assumes "type m = ''metrics_update''"
  shows "RealtimeMetrics_lastMessage (Some m) prev = data m
       \<and> RealtimeMetrics_lastMessage (Some m) prev = RealtimeMetrics_lastMessage (Some m) prev'"
  using assms by (simp add: RealtimeMetrics_lastMessage_def)

theorem metrics_update_replaces_witness:
  "RealtimeMetrics_lastMessage
     (Some \<lparr>type = ''metrics_update'', data = JArr [JStr ''x'', JNull]\<rparr>) metrics0
   = JArr [JStr ''x'', JNull]"
  using metrics_update_replaces
    [of "\<lparr>type = ''metrics_update'', data = JArr [JStr ''x'', JNull]\<rparr>" metrics0 metrics0]
  by simp

text \<open>
  C8. A push message whose type is neither \<open>metrics_update\<close> nor \<open>anomaly_detected\<close>
  changes neither the \<open>metrics\<close> state of RealtimeMetrics nor the \<open>anomalies\<close> state of
  AnomalyList.
\<close>

theorem other_message_ignored:
  assumes "type m \<noteq> ''metrics_update''" and "type m \<noteq> ''anomaly_detected''"
  shows "RealtimeMetrics_lastMessage (Some m) metrics = metrics
       \<and> AnomalyList_lastMessage (Some m) anomalies = anomalies"
  using assms by (simp add: RealtimeMetrics_lastMessage_def AnomalyList_lastMessage_def)

theorem other_message_ignored_witness:
  "RealtimeMetrics_lastMessage (Some \<lparr>type = ''heartbeat'', data = JNum 1\<rparr>) metrics0 = metrics0
   \<and> AnomalyList_lastMessage (Some \<lparr>type = ''heartbeat'', data = JNum 1\<rparr>) [JNum 7] = [JNum 7]"
  using other_message_ignored [of "\<lparr>type = ''heartbeat'', data = JNum 1\<rparr>" metrics0 "[JNum 7]"]
  by simp

section \<open>Properties of the status snapshot\<close>

lemma getProp_modelAccuracy:
  "truthy snapshot \<Longrightarrow>
   getProp (RealtimeMetrics_initialMetrics snapshot prev) ''modelAccuracy''
     = jsOr (optChain (getProp snapshot ''performance'') ''accuracy'') (JNum 0.947)"
  by (simp add: RealtimeMetrics_initialMetrics_def objectSpread_def update_conv')

text \<open>
  C9. Let the \<open>/api/status\<close> snapshot be a value that passes the guard
  \<open>if (initialMetrics)\<close>. When its \<open>performance?.accuracy\<close> is absent (\<open>undefined\<close>) or
  is the number 0, the effect sets \<open>modelAccuracy\<close> to 0.947, whatever the previous state;
  the card then shows 94.7 formatted with one decimal and a percent sign. No snapshot
  leaves \<open>modelAccuracy\<close> at the number 0.
\<close>

theorem accuracy_default:
  assumes "truthy snapshot"
  shows "(optChain (getProp snapshot ''performance'') ''accuracy'' = JUndefined
            \<or> optChain (getProp snapshot ''performance'') ''accuracy'' = JNum 0
          \<longrightarrow> getProp (RealtimeMetrics_initialMetrics snapshot prev) ''modelAccuracy''
                = JNum 0.947)
       \<and> getProp (RealtimeMetrics_initialMetrics snapshot prev) ''modelAccuracy'' \<noteq> JNum 0
       \<and> modelAccuracyText 0.947 = [ToFixed 94.7 1, Lit ''%'']"
  using assms by (auto simp: getProp_modelAccuracy jsOr_def modelAccuracyText_def)

theorem accuracy_default_witness:
  "truthy (JObj [(''devices'', JObj [(''total'', JNum 20), (''online'', JNum 18)]),
                (''performance'', JObj [(''accuracy'', JNum 0)])])
   \<and> optChain
        (getProp (JObj [(''devices'', JObj [(''total'', JNum 20), (''online'', JNum 18)]),
                        (''performance'', JObj [(''accuracy'', JNum 0)])]) ''performance'')
        ''accuracy'' = JNum 0
   \<and> getProp
        (RealtimeMetrics_initialMetrics
           (JObj [(''devices'', JObj [(''total'', JNum 20), (''online'', JNum 18)]),
                  (''performance'', JObj [(''accuracy'', JNum 0)])]) metrics0)
        ''modelAccuracy'' = JNum 0.947"
  using accuracy_default
    [of "JObj [(''devices'', JObj [(''total'', JNum 20), (''online'', JNum 18)]),
               (''performance'', JObj [(''accuracy'', JNum 0)])]" metrics0]
  by (simp add: optChain_def)

section \<open>Properties of PrivacyControls\<close>

subsection \<open>Unfolding the exponent one step\<close>

lemma log2_up_eval:
  "x < 2 \<Longrightarrow> log2_up x = 0"
  "2 \<le> x \<Longrightarrow> log2_up x = log2_up (x / 2) + 1"
  by (subst log2_up.simps, simp)+

lemma log2_down_eval:
  "x \<le> 0 \<Longrightarrow> log2_down x = 0"
  "1 \<le> x \<Longrightarrow> log2_down x = 0"
  "0 < x \<Longrightarrow> x < 1 \<Longrightarrow> log2_down x = log2_down (2 * x) - 1"
  by (subst log2_down.simps, simp)+

lemmas double_eval = double_def exponent_def pow2_def round_even_def Let_def
  log2_up_eval log2_down_eval

subsection \<open>The rounding to a double\<close>

text \<open>
  \<open>exponent\<close> is the exponent of the leading bit. A finite \<open>double x\<close> is an integer of at
  most 53 bits times the spacing of the doubles around \<open>x\<close>, and is no further from \<open>x\<close>
  than half that spacing.
\<close>

lemma pow2_pos: "0 < pow2 k"
  by (simp add: pow2_def)

lemma pow2_Suc: "pow2 (k + 1) = 2 * pow2 k"
proof (cases "0 \<le> k")
  case True
  then show ?thesis by (simp add: pow2_def nat_add_distrib)
next
  case False
  then have "nat (- k) = Suc (nat (- (k + 1)))" by simp
  with False show ?thesis
    by (cases "k = -1") (simp_all add: pow2_def)
qed

lemma pow2_pred: "pow2 (k - 1) = pow2 k / 2"
  using pow2_Suc [of "k - 1"] by simp

lemma log2_up_bracket:
  "1 \<le> x \<Longrightarrow> 0 \<le> log2_up x \<and> pow2 (log2_up x) \<le> x \<and> x < pow2 (log2_up x + 1)"
proof (induction x rule: log2_up.induct)
  case (1 x)
  show ?case
  proof (cases "x < 2")
    case True
    with "1.prems" show ?thesis
      by (simp add: log2_up_eval pow2_def)
  next
    case False
    define k where "k = log2_up (x / 2)"
    from False have "1 \<le> x / 2" by simp
    from "1.IH" [OF False this]
    have k: "0 \<le> k" "pow2 k \<le> x / 2" "x / 2 < pow2 (k + 1)"
      by (simp_all add: k_def)
    from False have e: "log2_up x = k + 1"
      by (simp add: log2_up_eval k_def)
    have "0 \<le> k + 1" using k(1) by simp
    moreover have "pow2 (k + 1) \<le> x"
      using k(2) pow2_Suc [of k] by linarith
    moreover have "x < pow2 (k + 1 + 1)"
      using k(3) pow2_Suc [of "k + 1"] by linarith
    ultimately show ?thesis
      by (simp only: e)
  qed
qed

lemma log2_down_bracket:
  "0 < x \<Longrightarrow> x < 1 \<Longrightarrow>
   log2_down x < 0 \<and> pow2 (log2_down x) \<le> x \<and> x < pow2 (log2_down x + 1)"
proof (induction x rule: log2_down.induct)
  case (1 x)
  define k where "k = log2_down (2 * x)"
  from "1.prems" have e: "log2_down x = k - 1"
    by (simp add: log2_down_eval k_def)
  have n: "\<not> (x \<le> 0 \<or> 1 \<le> x)" using "1.prems" by simp
  have p: "pow2 (k - 1) = pow2 k / 2" by (rule pow2_pred)
  have q: "pow2 (k - 1 + 1) = pow2 k" by simp
  show ?case
  proof (cases "2 * x < 1")
    case True
    with "1.IH" [OF n] "1.prems"
    have k: "k < 0" "pow2 k \<le> 2 * x" "2 * x < pow2 (k + 1)"
      by (simp_all add: k_def)
    have "k - 1 < 0" using k(1) by simp
    moreover have "pow2 (k - 1) \<le> x" using k(2) p by linarith
    moreover have "x < pow2 (k - 1 + 1)"
      using k(3) pow2_Suc [of k] q by linarith
    ultimately show ?thesis
      by (simp only: e)
  next
    case False
    then have k0: "k = 0" by (simp add: log2_down_eval k_def)
    have "pow2 (0 - 1) = 1 / 2" "pow2 (0 - 1 + 1) = 1"
      by (simp_all add: pow2_def)
    with False "1.prems" have "0 - 1 < (0::int)" "pow2 (0 - 1) \<le> x" "x < pow2 (0 - 1 + 1)"
      by simp_all
    then show ?thesis
      by (simp only: e k0)
  qed
qed

lemma exponent_bracket:
  assumes "x \<noteq> 0"
  shows "pow2 (exponent x) \<le> \<bar>x\<bar> \<and> \<bar>x\<bar> < pow2 (exponent x + 1)"
proof (cases "1 \<le> \<bar>x\<bar>")
  case True
  with log2_up_bracket [of "\<bar>x\<bar>"] show ?thesis by (simp add: exponent_def)
next
  case False
  with assms log2_down_bracket [of "\<bar>x\<bar>"] show ?thesis by (simp add: exponent_def)
qed

lemma round_even_near: "\<bar>of_int (round_even y) - y\<bar> \<le> 1 / 2"
  unfolding round_even_def by (auto simp: abs_le_iff; linarith)

lemma pow2_powr: "pow2 k = 2 powr of_int k"
  by (simp add: pow2_def powr_real_of_int inverse_eq_divide)

lemma round_even_bound:
  assumes "\<bar>y\<bar> \<le> of_int N"
  shows "\<bar>round_even y\<bar> \<le> N"
proof -
  from assms have "- N \<le> \<lfloor>y\<rfloor>" "\<lfloor>y\<rfloor> \<le> N" "y - of_int \<lfloor>y\<rfloor> < 1 / 2 \<or> \<lfloor>y\<rfloor> + 1 \<le> N \<or> y = of_int N"
    by linarith+
  moreover have "round_even (of_int N) = N"
    by (simp add: round_even_def)
  ultimately show ?thesis
    unfolding round_even_def by (auto simp: abs_le_iff)
qed

lemma double_Finite:
  assumes "double x = Finite r"
  defines "q \<equiv> pow2 (max (exponent x) (- 1022) - 52)"
  shows "\<exists>n. r = of_int n * q \<and> \<bar>n\<bar> \<le> 2 ^ 53 \<and> \<bar>r - x\<bar> \<le> q / 2"
proof -
  have q: "0 < q" by (simp add: q_def pow2_pos)
  define n where "n = round_even (x / q)"
  from assms(1) have r: "r = of_int n * q"
    by (simp add: double_def Let_def n_def q_def split: if_splits)
  have "\<bar>of_int n - x / q\<bar> \<le> 1 / 2"
    unfolding n_def by (rule round_even_near)
  then have "\<bar>of_int n - x / q\<bar> * q \<le> 1 / 2 * q"
    using q by (intro mult_right_mono) simp_all
  moreover have "\<bar>of_int n - x / q\<bar> * q = \<bar>r - x\<bar>"
  proof -
    have "(of_int n - x / q) * q = r - x"
      using q by (simp add: r left_diff_distrib)
    moreover have "\<bar>of_int n - x / q\<bar> * q = \<bar>(of_int n - x / q) * q\<bar>"
      using q by (simp only: abs_mult abs_of_pos)
    ultimately show ?thesis by simp
  qed
  ultimately have near: "\<bar>r - x\<bar> \<le> q / 2" by simp
  have "\<bar>x / q\<bar> \<le> of_int (2 ^ 53)"
  proof (cases "x = 0")
    case True
    then show ?thesis by simp
  next
    case False
    from exponent_bracket [OF this] have "\<bar>x\<bar> < pow2 (exponent x + 1)" by simp
    also have "\<dots> \<le> pow2 (max (exponent x) (- 1022) + 1)"
      by (simp add: pow2_powr)
    also have "\<dots> = 2 ^ 53 * q"
      by (simp add: q_def pow2_powr powr_diff powr_add)
    finally have "\<bar>x\<bar> / q \<le> 2 ^ 53"
      using q by (simp add: pos_divide_le_eq)
    then show ?thesis using q by simp
  qed
  then have "\<bar>n\<bar> \<le> 2 ^ 53"
    unfolding n_def by (rule round_even_bound)
  with r near show ?thesis by blast
qed

subsection \<open>The budget\<close>

text \<open>Some doubles: the nearest to 0.1 and to a third, and ties that go to the even neighbour.\<close>

lemma double_examples:
  "double 0.1 = Finite (3602879701896397 / 2 ^ 55)"
  "double (1 / 3) = Finite (6004799503160661 / 2 ^ 54)"
  "double (2 ^ 53 + 1) = Finite (2 ^ 53)"
  "double (2 ^ 53 + 3) = Finite (2 ^ 53 + 4)"
  "double (- 0.1) = Finite (- (3602879701896397 / 2 ^ 55))"
  by (simp_all add: double_eval)


lemma percentage_examples:
  "Math_round (number_times (number_div (double 0.21) 6.0) 100) = Finite 3"
  "Math_round (number_times (number_div (double 0.87) 6.0) 100) = Finite 14"
  "Math_round (number_times (number_div (double 1.17) 6.0) 100) = Finite 19"
  "Math_round (number_times (number_div (double 3) 6.0) 100) = Finite 50"
  "Math_round (number_times (number_div (double 4.2) 6.0) 100) = Finite 70"
  by (simp_all add: double_eval number_div_def number_times_def Math_round_def)



section \<open>Properties of onDrop\<close>

lemma onDrop_file_Inr: "onDrop_file g = Inr f \<Longrightarrow>
   f = g \<and> size_file g \<le> 50 * 1024 * 1024 \<and> type_file g \<in> set allowedTypes"
  by (auto simp: onDrop_file_def split: if_splits)

text \<open>
  C5. For the file at any position of the list given to \<open>onDrop\<close>: when its size exceeds
  50 * 1024 * 1024 = 52428800 bytes or its type is none of the four image and four video
  types, the outcome at its position is a destructive notice and \<open>uploadFile\<close> is called
  nowhere in the drop with that file; when it is within both limits, the outcome at its
  position is the call of \<open>uploadFile\<close> with it.
\<close>

theorem onDrop_limits:
  assumes "i < length acceptedFiles"
  shows "(size_file (acceptedFiles ! i) > 52428800
            \<or> type_file (acceptedFiles ! i) \<notin>
                {''image/jpeg'', ''image/jpg'', ''image/png'', ''image/gif'',
                 ''video/mp4'', ''video/avi'', ''video/mov'', ''video/mkv''}
          \<longrightarrow> (\<exists>t. onDrop acceptedFiles ! i = Inl t \<and> variant t = Destructive)
              \<and> Inr (acceptedFiles ! i) \<notin> set (onDrop acceptedFiles))
       \<and> (size_file (acceptedFiles ! i) \<le> 52428800
            \<and> type_file (acceptedFiles ! i) \<in>
                {''image/jpeg'', ''image/jpg'', ''image/png'', ''image/gif'',
                 ''video/mp4'', ''video/avi'', ''video/mov'', ''video/mkv''}
          \<longrightarrow> onDrop acceptedFiles ! i = Inr (acceptedFiles ! i))
       \<and> length (onDrop acceptedFiles) = length acceptedFiles"
proof -
  let ?f = "acceptedFiles ! i"
  have types: "set allowedTypes =
      {''image/jpeg'', ''image/jpg'', ''image/png'', ''image/gif'',
       ''video/mp4'', ''video/avi'', ''video/mov'', ''video/mkv''}"
    by (simp add: allowedTypes_def)
  have nth: "onDrop acceptedFiles ! i = onDrop_file ?f"
    using assms by (simp add: onDrop_def)
  have not_called: "Inr ?f \<notin> set (onDrop acceptedFiles)"
    if "size_file ?f > 52428800 \<or> type_file ?f \<notin> set allowedTypes"
  proof
    assume "Inr ?f \<in> set (onDrop acceptedFiles)"
    then obtain g where "onDrop_file g = Inr ?f"
      by (auto simp: onDrop_def)
    then have "size_file ?f \<le> 50 * 1024 * 1024 \<and> type_file ?f \<in> set allowedTypes"
      using onDrop_file_Inr by blast
    with that show False by simp
  qed
  have rejected: "\<exists>t. onDrop_file ?f = Inl t \<and> variant t = Destructive"
    if "size_file ?f > 52428800 \<or> type_file ?f \<notin> set allowedTypes"
    using that by (auto simp: onDrop_file_def fileTooLarge_def invalidFileType_def)
  have accepted: "onDrop_file ?f = Inr ?f"
    if "size_file ?f \<le> 52428800" "type_file ?f \<in> set allowedTypes"
    using that by (simp add: onDrop_file_def)
  show ?thesis
    using not_called rejected accepted nth unfolding types
    by (simp add: onDrop_def)
qed

theorem onDrop_limits_witness:
  "1 < length [\<lparr>name = ''a.png'', size_file = 1000, type_file = ''image/png''\<rparr>,
               \<lparr>name = ''b.pdf'', size_file = 1000, type_file = ''application/pdf''\<rparr>]
   \<and> onDrop [\<lparr>name = ''a.png'', size_file = 1000, type_file = ''image/png''\<rparr>,
             \<lparr>name = ''b.pdf'', size_file = 1000, type_file = ''application/pdf''\<rparr>] ! 1
       = Inl invalidFileType
   \<and> Inr \<lparr>name = ''b.pdf'', size_file = 1000, type_file = ''application/pdf''\<rparr>
       \<notin> set (onDrop [\<lparr>name = ''a.png'', size_file = 1000, type_file = ''image/png''\<rparr>,
                      \<lparr>name = ''b.pdf'', size_file = 1000, type_file = ''application/pdf''\<rparr>])"
  using onDrop_limits
    [of 1 "[\<lparr>name = ''a.png'', size_file = 1000, type_file = ''image/png''\<rparr>,
            \<lparr>name = ''b.pdf'', size_file = 1000, type_file = ''application/pdf''\<rparr>]"]
  by (simp add: onDrop_def onDrop_file_def allowedTypes_def)

section \<open>Properties of the overlays\<close>

text \<open>
  C7. When a result is selected and the image of the selected file is shown, there is one
  overlay for each bounding box \<open>[x1, y1, x2, y2]\<close> of the result, at left
  \<open>x1 * (512 / 640)\<close> and top \<open>y1 * (256 / 480)\<close>, \<open>(x2 - x1) * (512 / 640)\<close> wide and
  \<open>(y2 - y1) * (256 / 480)\<close> high: the scale is that of a 640 by 480 frame, and nothing of
  the uploaded image enters.
\<close>

theorem overlay_scaling:
  assumes "selectedResult st = Some r" and "bounding_boxes r = Some boxes"
    and "shownImageUrl st \<noteq> None" and "i < length boxes"
    and "bbox (boxes ! i) = (x1, y1, x2, y2)"
  shows "length (overlays st) = length boxes
       \<and> left_px (overlays st ! i) = x1 * (512 / 640)
       \<and> top_px (overlays st ! i) = y1 * (256 / 480)
       \<and> width_px (overlays st ! i) = (x2 - x1) * (512 / 640)
       \<and> height_px (overlays st ! i) = (y2 - y1) * (256 / 480)"
proof -
  from assms(4) have "length boxes > 0" by (cases boxes) simp_all
  with assms(1-3) have all: "overlays st = map overlayOf boxes"
    by (simp add: overlays_def)
  from assms(5) have "overlayOf (boxes ! i) =
      \<lparr>left_px = x1 * (512 / 640), top_px = y1 * (256 / 480),
       width_px = (x2 - x1) * (512 / 640), height_px = (y2 - y1) * (256 / 480),
       red = is_anomaly (boxes ! i),
       label = [Lit (class_name (boxes ! i)), Lit '' ('',
                ToFixed (confidence_bb (boxes ! i) * 100) 0, Lit ''%)'']\<rparr>"
    by (simp add: overlayOf_def)
  with all assms(4) show ?thesis by simp
qed

theorem overlay_scaling_witness:
  "selectedResult (onClick example_analyzed (AnomalyAnalysis0\<lparr>uploadedFiles := [example_analyzed]\<rparr>))
     = Some example_result
   \<and> shownImageUrl (onClick example_analyzed (AnomalyAnalysis0\<lparr>uploadedFiles := [example_analyzed]\<rparr>))
     = Some ''/uploads/u1.jpg''
   \<and> left_px (overlays (onClick example_analyzed
        (AnomalyAnalysis0\<lparr>uploadedFiles := [example_analyzed]\<rparr>)) ! 0) = 51.2
   \<and> top_px (overlays (onClick example_analyzed
        (AnomalyAnalysis0\<lparr>uploadedFiles := [example_analyzed]\<rparr>)) ! 0) = 25.6
   \<and> width_px (overlays (onClick example_analyzed
        (AnomalyAnalysis0\<lparr>uploadedFiles := [example_analyzed]\<rparr>)) ! 0) = 204.8
   \<and> height_px (overlays (onClick example_analyzed
        (AnomalyAnalysis0\<lparr>uploadedFiles := [example_analyzed]\<rparr>)) ! 0) = 102.4"
  using overlay_scaling
    [of "onClick example_analyzed (AnomalyAnalysis0\<lparr>uploadedFiles := [example_analyzed]\<rparr>)"
        example_result
        "[\<lparr>class_name = ''person'', confidence_bb = 0.9, bbox = (64, 48, 320, 240),
           is_anomaly = True, priority = ''high''\<rparr>]"
        0 64 48 320 240]
  by (simp add: onClick_def shownImageUrl_def AnomalyAnalysis0_def example_analyzed_def
      example_upload_def example_result_def)

section \<open>Properties of the poll loop\<close>

subsection \<open>One step\<close>

lemma poll_settled_timers [simp]:
  "now (poll_settled u r s) = now s"
  "nextTick (poll_settled u r s) = nextTick s"
  "pollTimes (poll_settled u r s) = pollTimes s"
  "pending (poll_settled u r s) = pending s"
  "timeoutPending (poll_settled u r s) = timeoutPending s"
  by (simp_all add: poll_settled_def split: response.split option.split)

lemma poll_settled_pollInterval:
  "pollInterval (poll_settled u r s) \<Longrightarrow> pollInterval s"
  by (simp add: poll_settled_def split: response.splits option.splits if_splits)

lemma poll_settled_pending_record:
  assumes "find (\<lambda>f. id_uf f = id_uf u) files = None
         \<or> (\<exists>currentFile. find (\<lambda>f. id_uf f = id_uf u) files = Some currentFile
              \<and> (status currentFile = Uploaded \<or> status currentFile = Processing))"
  shows "poll_settled u (Files files) s = s"
  using assms by (auto simp: poll_settled_def)

lemma poll_settled_done:
  assumes "find (\<lambda>f. id_uf f = id_uf u) files = Some currentFile"
    and "status currentFile \<noteq> Uploaded" and "status currentFile \<noteq> Processing"
  shows "uploadedFiles (poll_settled u (Files files) s) =
           map (\<lambda>f. if id_uf f = id_uf u then currentFile else f) (uploadedFiles s)"
    and "selectedResult (poll_settled u (Files files) s) =
           (if status currentFile = Analyzed \<and> analysisResults currentFile \<noteq> None
            then analysisResults currentFile else selectedResult s)"
    and "\<not> pollInterval (poll_settled u (Files files) s)"
  using assms by (simp_all add: poll_settled_def)

lemma poll_settled_Rejected:
  "uploadedFiles (poll_settled u Rejected s) = uploadedFiles s"
  "selectedResult (poll_settled u Rejected s) = selectedResult s"
  "toasts (poll_settled u Rejected s) = toasts s"
  "\<not> pollInterval (poll_settled u Rejected s)"
  by (simp_all add: poll_settled_def)

lemma exec_Elapse:
  "exec u (Elapse d) s = Some s' \<longleftrightarrow>
     0 < d \<and> (pollInterval s \<longrightarrow> now s + d \<le> nextTick s)
     \<and> (timeoutPending s \<longrightarrow> now s + d \<le> 60000) \<and> s' = s\<lparr>now := now s + d\<rparr>"
  by (auto simp: exec_def)

lemma exec_IntervalFires:
  "exec u IntervalFires s = Some s' \<longleftrightarrow>
     pollInterval s \<and> now s = nextTick s
     \<and> s' = s\<lparr>nextTick := nextTick s + 2000, pollTimes := pollTimes s @ [now s],
               pending := pending s @ [Suc (length (pollTimes s))]\<rparr>"
  by (auto simp: exec_def)

lemma exec_TimeoutFires:
  "exec u TimeoutFires s = Some s' \<longleftrightarrow>
     timeoutPending s \<and> now s = 60000
     \<and> s' = s\<lparr>pollInterval := False, timeoutPending := False\<rparr>"
  by (auto simp: exec_def)

lemma exec_FetchSettles:
  "exec u (FetchSettles k r) s = Some s' \<longleftrightarrow>
     k \<in> set (pending s) \<and> s' = poll_settled u r (s\<lparr>pending := removeAll k (pending s)\<rparr>)"
  by (auto simp: exec_def)

subsection \<open>The invariant\<close>

lemma wfD:
  assumes "wf s"
  shows "pollInterval s \<Longrightarrow> timeoutPending s"
    and "timeoutPending s \<Longrightarrow> now s \<le> 60000"
    and "pollInterval s \<Longrightarrow> now s \<le> nextTick s"
    and "pollInterval s \<Longrightarrow> nextTick s = 2000 * Suc (length (pollTimes s))"
    and "pollTimes s = map (\<lambda>k. 2000 * k) [1..<Suc (length (pollTimes s))]"
    and "length (pollTimes s) \<le> 30"
    and "set (pending s) \<subseteq> {1..length (pollTimes s)}"
  using assms unfolding wf_def by blast+

lemma exec_wf:
  assumes "wf s" and "exec u e s = Some s'"
  shows "wf s'"
proof (cases e)
  case (Elapse d)
  with assms(2) have "0 < d" "pollInterval s \<longrightarrow> now s + d \<le> nextTick s"
    "timeoutPending s \<longrightarrow> now s + d \<le> 60000" "s' = s\<lparr>now := now s + d\<rparr>"
    by (simp_all add: exec_Elapse)
  with assms(1) show ?thesis
    unfolding wf_def by simp
next
  case IntervalFires
  with assms(2) have en: "pollInterval s" "now s = nextTick s"
    and s': "s' = s\<lparr>nextTick := nextTick s + 2000, pollTimes := pollTimes s @ [now s],
                    pending := pending s @ [Suc (length (pollTimes s))]\<rparr>"
    by (simp_all add: exec_IntervalFires)
  from assms(1) en have nt: "nextTick s = 2000 * Suc (length (pollTimes s))"
    and le: "now s \<le> 60000" and tp: "timeoutPending s"
    and pt: "pollTimes s = map (\<lambda>k. 2000 * k) [1..<Suc (length (pollTimes s))]"
    and pe: "set (pending s) \<subseteq> {1..length (pollTimes s)}"
    by (blast dest: wfD)+
  from nt le en have len: "Suc (length (pollTimes s)) \<le> 30" by simp
  have "pollTimes s' = map (\<lambda>k. 2000 * k) [1..<Suc (length (pollTimes s'))]"
    using pt nt en by (simp add: s')
  moreover have "set (pending s') \<subseteq> {1..length (pollTimes s')}"
    using pe by (auto simp: s')
  moreover have "length (pollTimes s') \<le> 30"
    using len by (simp add: s')
  moreover have "nextTick s' = 2000 * Suc (length (pollTimes s'))" "now s' \<le> nextTick s'"
    using nt en by (simp_all add: s')
  moreover have "timeoutPending s'" "now s' \<le> 60000"
    using tp le by (simp_all add: s')
  ultimately show ?thesis
    unfolding wf_def by blast
next
  case TimeoutFires
  with assms(2) have "s' = s\<lparr>pollInterval := False, timeoutPending := False\<rparr>"
    by (simp add: exec_TimeoutFires)
  with assms(1) show ?thesis
    unfolding wf_def by simp
next
  case (FetchSettles k r)
  with assms(2) have s': "s' = poll_settled u r (s\<lparr>pending := removeAll k (pending s)\<rparr>)"
    by (simp add: exec_FetchSettles)
  have "pollInterval s' \<longrightarrow> pollInterval s"
    using poll_settled_pollInterval [of u r "s\<lparr>pending := removeAll k (pending s)\<rparr>"]
    by (simp add: s')
  moreover have "now s' = now s" "nextTick s' = nextTick s" "pollTimes s' = pollTimes s"
    "timeoutPending s' = timeoutPending s" "set (pending s') \<subseteq> set (pending s)"
    by (auto simp: s')
  ultimately show ?thesis
    using assms(1) unfolding wf_def by auto
qed

lemma run_wf: "wf s \<Longrightarrow> run u evs s = Some s' \<Longrightarrow> wf s'"
proof (induction evs arbitrary: s)
  case Nil
  then show ?case by simp
next
  case (Cons e es)
  then show ?case
    by (auto split: option.splits dest: exec_wf)
qed

lemma wf_uploadFile_settled: "wf (uploadFile_settled file outcome st)"
  by (simp add: wf_def uploadFile_settled_def setTimers_def noTimers_def
      split: upload_outcome.split)

subsection \<open>After the interval is cleared\<close>

lemma exec_cleared:
  assumes "exec u e s = Some s'" and "\<not> pollInterval s"
  shows "\<not> pollInterval s'" and "pollTimes s' = pollTimes s"
    and "set (pending s') \<subseteq> set (pending s)"
proof -
  have "\<not> pollInterval s' \<and> pollTimes s' = pollTimes s \<and> set (pending s') \<subseteq> set (pending s)"
  proof (cases e)
    case (Elapse d)
    with assms show ?thesis by (simp add: exec_Elapse)
  next
    case IntervalFires
    with assms show ?thesis by (simp add: exec_IntervalFires)
  next
    case TimeoutFires
    with assms show ?thesis by (simp add: exec_TimeoutFires)
  next
    case (FetchSettles k r)
    with assms(1) have s': "s' = poll_settled u r (s\<lparr>pending := removeAll k (pending s)\<rparr>)"
      by (simp add: exec_FetchSettles)
    have "pollInterval s' \<longrightarrow> pollInterval s"
      using poll_settled_pollInterval [of u r "s\<lparr>pending := removeAll k (pending s)\<rparr>"]
      by (simp add: s')
    moreover have "pollTimes s' = pollTimes s" "set (pending s') \<subseteq> set (pending s)"
      by (auto simp: s')
    ultimately show ?thesis using assms(2) by blast
  qed
  then show "\<not> pollInterval s'" and "pollTimes s' = pollTimes s"
    and "set (pending s') \<subseteq> set (pending s)"
    by blast+
qed

lemma run_cleared:
  assumes "run u evs s = Some s'" and "\<not> pollInterval s"
  shows "\<not> pollInterval s' \<and> pollTimes s' = pollTimes s \<and> set (pending s') \<subseteq> set (pending s)"
  using assms
proof (induction evs arbitrary: s)
  case Nil
  then show ?case by simp
next
  case (Cons e es)
  from Cons.prems(1) obtain t where t: "exec u e s = Some t" and rest: "run u es t = Some s'"
    by (auto split: option.splits)
  from exec_cleared [OF t Cons.prems(2)]
  have "\<not> pollInterval t" "pollTimes t = pollTimes s" "set (pending t) \<subseteq> set (pending s)" .
  with Cons.IH [OF rest] show ?case by auto
qed

lemma exec_changes:
  assumes "exec u e s = Some s'"
    and "uploadedFiles s' \<noteq> uploadedFiles s \<or> selectedResult s' \<noteq> selectedResult s"
  shows "\<exists>k files currentFile. e = FetchSettles k (Files files) \<and> k \<in> set (pending s)
           \<and> find (\<lambda>f. id_uf f = id_uf u) files = Some currentFile
           \<and> status currentFile \<noteq> Uploaded \<and> status currentFile \<noteq> Processing"
proof (cases e)
  case (Elapse d)
  with assms show ?thesis by (auto simp: exec_Elapse)
next
  case IntervalFires
  with assms show ?thesis by (auto simp: exec_IntervalFires)
next
  case TimeoutFires
  with assms show ?thesis by (auto simp: exec_TimeoutFires)
next
  case (FetchSettles k r)
  with assms(1) have k: "k \<in> set (pending s)"
    and s': "s' = poll_settled u r (s\<lparr>pending := removeAll k (pending s)\<rparr>)"
    by (simp_all add: exec_FetchSettles)
  show ?thesis
  proof (cases r)
    case Rejected
    with assms(2) s' show ?thesis by (simp add: poll_settled_Rejected)
  next
    case (Files files)
    show ?thesis
    proof (cases "find (\<lambda>f. id_uf f = id_uf u) files")
      case None
      with assms(2) s' Files show ?thesis
        by (simp add: poll_settled_pending_record)
    next
      case (Some currentFile)
      show ?thesis
      proof (cases "status currentFile = Uploaded \<or> status currentFile = Processing")
        case True
        with Some have "poll_settled u (Files files) (s\<lparr>pending := removeAll k (pending s)\<rparr>)
            = s\<lparr>pending := removeAll k (pending s)\<rparr>"
          by (intro poll_settled_pending_record) blast
        with assms(2) s' Files show ?thesis by simp
      next
        case False
        with Some k FetchSettles Files show ?thesis by blast
      qed
    qed
  qed
qed

lemma run_quiet:
  assumes "run u evs s = Some s'" and "\<not> pollInterval s" and "pending s = []"
  shows "uploadedFiles s' = uploadedFiles s \<and> selectedResult s' = selectedResult s"
  using assms
proof (induction evs arbitrary: s)
  case Nil
  then show ?case by simp
next
  case (Cons e es)
  from Cons.prems(1) obtain t where t: "exec u e s = Some t" and rest: "run u es t = Some s'"
    by (auto split: option.splits)
  from exec_cleared [OF t Cons.prems(2)] Cons.prems(3)
  have c: "\<not> pollInterval t" "pending t = []" by simp_all
  from exec_changes [OF t] Cons.prems(3)
  have "uploadedFiles t = uploadedFiles s \<and> selectedResult t = selectedResult s"
    by fastforce
  with Cons.IH [OF rest c] show ?case by simp
qed

subsection \<open>The example runs\<close>

lemma run_append:
  "run u (xs @ ys) s = (case run u xs s of None \<Rightarrow> None | Some s' \<Rightarrow> run u ys s')"
  by (induction xs arbitrary: s) (simp_all split: option.split)

lemma run_ticks:
  "n \<le> 30 \<Longrightarrow>
   run u (ticks n)
     \<lparr>uploadedFiles = fs, selectedResult = sr, selectedFileId = sf, isUploading = b,
      toasts = ts, console = c, pollInterval = True, timeoutPending = True, now = 0,
      nextTick = 2000, pollTimes = [], pending = []\<rparr>
   = Some
     \<lparr>uploadedFiles = fs, selectedResult = sr, selectedFileId = sf, isUploading = b,
      toasts = ts, console = c, pollInterval = True, timeoutPending = True, now = 2000 * n,
      nextTick = 2000 * Suc n, pollTimes = map (\<lambda>k. 2000 * k) [1..<Suc n],
      pending = [1..<Suc n]\<rparr>"
proof (induction n)
  case 0
  then show ?case by simp
next
  case (Suc n)
  then show ?case
    by (simp add: run_append exec_def)
qed

lemma example_loop_eq:
  "example_loop =
     \<lparr>uploadedFiles = [example_upload], selectedResult = None, selectedFileId = None,
      isUploading = False, toasts = [fileUploaded example_file], console = [],
      pollInterval = True, timeoutPending = True, now = 0,
      nextTick = 2000, pollTimes = [], pending = []\<rparr>"
  by (simp add: example_loop_def uploadFile_settled_def setTimers_def noTimers_def
      AnomalyAnalysis0_def)

lemma example_polling_reached:
  "run example_upload [Elapse 2000, IntervalFires] example_loop = Some example_polling"
  by (simp add: example_polling_def example_loop_eq exec_def)

lemma example_both_polling_reached:
  "run example_upload [Elapse 2000, IntervalFires, Elapse 2000, IntervalFires] example_loop
     = Some example_both_polling"
  by (simp add: example_both_polling_def example_loop_eq exec_def)

lemma example_timed_out_reached:
  "run example_upload (ticks 30 @ [TimeoutFires]) example_loop = Some example_timed_out"
  by (simp add: example_timed_out_def example_loop_eq run_append run_ticks exec_def)

subsection \<open>The claims\<close>

text \<open>
  C1, as the code has it. For the loop that \<open>uploadFile\<close> starts for an upload, at every
  moment: the interval has fired at 2000 ms, 4000 ms, ... after its registration, at most
  30 times, and while it is registered it is next due 2000 ms after its last firing; past
  60000 ms the interval is cleared; once it is cleared no poll is started any more, the
  polls in flight are among those in flight then, and when none is in flight
  \<open>uploadedFiles\<close> and \<open>selectedResult\<close> stay as they are. When the fetch of a poll
  settles with a list whose matching record has a status other than \<open>uploaded\<close> and
  \<open>processing\<close>, that record replaces the matching entries of \<open>uploadedFiles\<close>, and when
  it is \<open>analyzed\<close> and carries results, those become \<open>selectedResult\<close>.
\<close>

theorem poll_loop_capped:
  assumes "run uploadedFile evs (uploadFile_settled file (Ok uploadedFile) st) = Some s"
  shows "pollTimes s = map (\<lambda>k. 2000 * k) [1..<Suc (length (pollTimes s))]
       \<and> length (pollTimes s) \<le> 30
       \<and> (pollInterval s \<longrightarrow>
            nextTick s = 2000 * Suc (length (pollTimes s)) \<and> now s \<le> nextTick s)
       \<and> (60000 < now s \<longrightarrow> \<not> pollInterval s)
       \<and> (\<not> pollInterval s \<longrightarrow>
            (\<forall>evs' s'. run uploadedFile evs' s = Some s' \<longrightarrow>
               \<not> pollInterval s' \<and> pollTimes s' = pollTimes s
               \<and> set (pending s') \<subseteq> set (pending s)
               \<and> (pending s = [] \<longrightarrow>
                    uploadedFiles s' = uploadedFiles s \<and> selectedResult s' = selectedResult s)))
       \<and> (\<forall>k files currentFile s'.
            exec uploadedFile (FetchSettles k (Files files)) s = Some s'
            \<and> find (\<lambda>f. id_uf f = id_uf uploadedFile) files = Some currentFile
            \<and> status currentFile \<noteq> Uploaded \<and> status currentFile \<noteq> Processing \<longrightarrow>
              uploadedFiles s' =
                map (\<lambda>f. if id_uf f = id_uf uploadedFile then currentFile else f) (uploadedFiles s)
              \<and> (\<forall>r. status currentFile = Analyzed \<and> analysisResults currentFile = Some r \<longrightarrow>
                    selectedResult s' = Some r))"
proof -
  have "wf s"
    using wf_uploadFile_settled assms by (rule run_wf)
  note w = wfD [OF this]
  have every: "pollTimes s = map (\<lambda>k. 2000 * k) [1..<Suc (length (pollTimes s))]"
    and cap: "length (pollTimes s) \<le> 30"
    by (rule w)+
  have due: "nextTick s = 2000 * Suc (length (pollTimes s)) \<and> now s \<le> nextTick s"
    if "pollInterval s"
    using that w(3) w(4) by blast
  have after: "\<not> pollInterval s" if "60000 < now s"
    using that w(1) w(2) by fastforce
  have quiet: "\<not> pollInterval s' \<and> pollTimes s' = pollTimes s
       \<and> set (pending s') \<subseteq> set (pending s)
       \<and> (pending s = [] \<longrightarrow>
            uploadedFiles s' = uploadedFiles s \<and> selectedResult s' = selectedResult s)"
    if "\<not> pollInterval s" and "run uploadedFile evs' s = Some s'" for evs' s'
    using run_cleared [OF that(2) that(1)] run_quiet [OF that(2) that(1)] by blast
  have update: "uploadedFiles s' =
        map (\<lambda>f. if id_uf f = id_uf uploadedFile then currentFile else f) (uploadedFiles s)
      \<and> (\<forall>r. status currentFile = Analyzed \<and> analysisResults currentFile = Some r \<longrightarrow>
            selectedResult s' = Some r)"
    if "exec uploadedFile (FetchSettles k (Files files)) s = Some s'"
      and "find (\<lambda>f. id_uf f = id_uf uploadedFile) files = Some currentFile"
      and "status currentFile \<noteq> Uploaded" and "status currentFile \<noteq> Processing"
    for k files currentFile s'
  proof -
    from that(1)
    have "s' = poll_settled uploadedFile (Files files) (s\<lparr>pending := removeAll k (pending s)\<rparr>)"
      by (simp add: exec_FetchSettles)
    with poll_settled_done(1,2) [OF that(2-4), of "s\<lparr>pending := removeAll k (pending s)\<rparr>"]
    show ?thesis by simp
  qed
  from every cap due after quiet update show ?thesis by blast
qed

theorem poll_loop_capped_witness:
  "run example_upload (ticks 30 @ [TimeoutFires])
     (uploadFile_settled example_file (Ok example_upload) AnomalyAnalysis0)
   = Some example_timed_out
   \<and> length (pollTimes example_timed_out) = 30
   \<and> pollTimes example_timed_out = map (\<lambda>k. 2000 * k) [1..<31]
   \<and> \<not> pollInterval example_timed_out"
proof -
  have r: "run example_upload (ticks 30 @ [TimeoutFires])
     (uploadFile_settled example_file (Ok example_upload) AnomalyAnalysis0)
   = Some example_timed_out"
    using example_timed_out_reached by (simp add: example_loop_def)
  from poll_loop_capped [OF r] r show ?thesis
    by (simp add: example_timed_out_def)
qed

text \<open>
  C1 as stated fails where it says that nothing is written after 60 seconds. The fetch of
  the 29th poll, started at 58000 ms, is still in flight when the 60000 ms timer clears
  the interval. At 60500 ms the interval is cleared and the entry is as uploaded; when
  the fetch then settles with the analyzed record, the callback goes on from its \<open>await\<close>
  and writes both \<open>uploadedFiles\<close> and \<open>selectedResult\<close>.
\<close>

theorem late_poll_updates_after_timeout:
  "map_option now (run example_upload late_trace example_loop) = Some 60500
   \<and> map_option pollInterval (run example_upload late_trace example_loop) = Some False
   \<and> map_option uploadedFiles (run example_upload late_trace example_loop)
       = Some [example_upload]
   \<and> map_option selectedResult (run example_upload late_trace example_loop) = Some None
   \<and> map_option uploadedFiles
        (run example_upload (late_trace @ [FetchSettles 29 (Files [example_analyzed])])
           example_loop)
       = Some [example_analyzed]
   \<and> map_option selectedResult
        (run example_upload (late_trace @ [FetchSettles 29 (Files [example_analyzed])])
           example_loop)
       = Some (Some example_result)
   \<and> example_analyzed \<noteq> example_upload"
  by (simp add: late_trace_def example_loop_eq run_append run_ticks exec_def poll_settled_def
      example_analyzed_def example_upload_def)

text \<open>
  C6. When the fetch of a poll fails, the callback clears the interval and leaves
  \<open>uploadedFiles\<close> and \<open>selectedResult\<close> as they are; whatever happens afterwards, the
  interval stays cleared, no poll is started any more, and the failed poll is not in
  flight again.
\<close>

theorem poll_rejected_clears:
  assumes "exec uploadedFile (FetchSettles k Rejected) s = Some s'"
  shows "\<not> pollInterval s'
       \<and> uploadedFiles s' = uploadedFiles s \<and> selectedResult s' = selectedResult s
       \<and> (\<forall>evs s''. run uploadedFile evs s' = Some s'' \<longrightarrow>
             \<not> pollInterval s'' \<and> pollTimes s'' = pollTimes s \<and> k \<notin> set (pending s''))"
proof -
  from assms have s': "s' = poll_settled uploadedFile Rejected (s\<lparr>pending := removeAll k (pending s)\<rparr>)"
    by (simp add: exec_FetchSettles)
  then have now: "\<not> pollInterval s'" "uploadedFiles s' = uploadedFiles s"
    "selectedResult s' = selectedResult s" "pollTimes s' = pollTimes s" "k \<notin> set (pending s')"
    by (simp_all add: poll_settled_Rejected)
  have "\<not> pollInterval s'' \<and> pollTimes s'' = pollTimes s \<and> k \<notin> set (pending s'')"
    if "run uploadedFile evs s' = Some s''" for evs s''
    using run_cleared [OF that now(1)] now(4,5) by auto
  with now show ?thesis by blast
qed

theorem poll_rejected_clears_witness:
  "exec example_upload (FetchSettles 1 Rejected) example_polling
     = Some (example_polling
         \<lparr>pending := [], console := [''Failed to fetch analysis results:''],
          pollInterval := False\<rparr>)
   \<and> \<not> pollInterval (example_polling
         \<lparr>pending := [], console := [''Failed to fetch analysis results:''],
          pollInterval := False\<rparr>)
   \<and> uploadedFiles (example_polling
         \<lparr>pending := [], console := [''Failed to fetch analysis results:''],
          pollInterval := False\<rparr>) = uploadedFiles example_polling"
proof -
  have e: "exec example_upload (FetchSettles 1 Rejected) example_polling
     = Some (example_polling
         \<lparr>pending := [], console := [''Failed to fetch analysis results:''],
          pollInterval := False\<rparr>)"
    by (simp add: exec_def poll_settled_def example_polling_def example_loop_eq)
  from poll_rejected_clears [OF e] e show ?thesis by simp
qed

text \<open>
  C10, as the code has it. For every step of a loop: a poll that settles with a list whose
  matching record is absent, \<open>uploaded\<close> or \<open>processing\<close> leaves \<open>uploadedFiles\<close>,
  \<open>selectedResult\<close>, the notices and the interval as they are; \<open>uploadedFiles\<close> changes
  only when a poll settles with a matching record of another status, which then replaces
  the matching entries, and the interval is cleared with it; so every entry after the
  step is an entry from before or has a status other than \<open>uploaded\<close> and \<open>processing\<close>;
  and when after the step the interval is cleared and no poll is in flight,
  \<open>uploadedFiles\<close> and \<open>selectedResult\<close> are never written again.
\<close>

theorem pending_poll_frame:
  assumes "exec uploadedFile e s = Some s'"
  shows "(\<forall>k files.
            e = FetchSettles k (Files files)
            \<and> (\<forall>currentFile. find (\<lambda>f. id_uf f = id_uf uploadedFile) files = Some currentFile \<longrightarrow>
                  status currentFile = Uploaded \<or> status currentFile = Processing) \<longrightarrow>
              uploadedFiles s' = uploadedFiles s \<and> selectedResult s' = selectedResult s
              \<and> toasts s' = toasts s \<and> pollInterval s' = pollInterval s)
       \<and> (uploadedFiles s' \<noteq> uploadedFiles s \<longrightarrow>
            \<not> pollInterval s'
            \<and> (\<exists>k files currentFile.
                  e = FetchSettles k (Files files)
                  \<and> find (\<lambda>f. id_uf f = id_uf uploadedFile) files = Some currentFile
                  \<and> status currentFile \<noteq> Uploaded \<and> status currentFile \<noteq> Processing
                  \<and> uploadedFiles s' =
                      map (\<lambda>f. if id_uf f = id_uf uploadedFile then currentFile else f)
                        (uploadedFiles s)))
       \<and> (\<forall>f \<in> set (uploadedFiles s').
            f \<in> set (uploadedFiles s) \<or> (status f \<noteq> Uploaded \<and> status f \<noteq> Processing))
       \<and> (\<not> pollInterval s' \<and> pending s' = [] \<longrightarrow>
            (\<forall>evs s''. run uploadedFile evs s' = Some s'' \<longrightarrow>
               uploadedFiles s'' = uploadedFiles s' \<and> selectedResult s'' = selectedResult s'))"
proof -
  have frame: "uploadedFiles s' = uploadedFiles s \<and> selectedResult s' = selectedResult s
      \<and> toasts s' = toasts s \<and> pollInterval s' = pollInterval s"
    if e: "e = FetchSettles k (Files files)"
      and p: "\<forall>currentFile. find (\<lambda>f. id_uf f = id_uf uploadedFile) files = Some currentFile \<longrightarrow>
                  status currentFile = Uploaded \<or> status currentFile = Processing"
    for k files
  proof -
    from p have "find (\<lambda>f. id_uf f = id_uf uploadedFile) files = None
         \<or> (\<exists>currentFile. find (\<lambda>f. id_uf f = id_uf uploadedFile) files = Some currentFile
              \<and> (status currentFile = Uploaded \<or> status currentFile = Processing))"
      by (cases "find (\<lambda>f. id_uf f = id_uf uploadedFile) files") auto
    then have "poll_settled uploadedFile (Files files) (s\<lparr>pending := removeAll k (pending s)\<rparr>)
        = s\<lparr>pending := removeAll k (pending s)\<rparr>"
      by (rule poll_settled_pending_record)
    with assms e show ?thesis by (simp add: exec_FetchSettles)
  qed
  have changed: "\<not> pollInterval s'
      \<and> (\<exists>k files currentFile.
            e = FetchSettles k (Files files)
            \<and> find (\<lambda>f. id_uf f = id_uf uploadedFile) files = Some currentFile
            \<and> status currentFile \<noteq> Uploaded \<and> status currentFile \<noteq> Processing
            \<and> uploadedFiles s' =
                map (\<lambda>f. if id_uf f = id_uf uploadedFile then currentFile else f)
                  (uploadedFiles s))"
    if "uploadedFiles s' \<noteq> uploadedFiles s"
  proof -
    from exec_changes [OF assms] that
    obtain k files currentFile where e: "e = FetchSettles k (Files files)"
      and f: "find (\<lambda>f. id_uf f = id_uf uploadedFile) files = Some currentFile"
      and st: "status currentFile \<noteq> Uploaded" "status currentFile \<noteq> Processing"
      by blast
    from assms e
    have s': "s' = poll_settled uploadedFile (Files files) (s\<lparr>pending := removeAll k (pending s)\<rparr>)"
      by (simp add: exec_FetchSettles)
    from poll_settled_done(1,3) [OF f st, of "s\<lparr>pending := removeAll k (pending s)\<rparr>"] s'
    have "\<not> pollInterval s'" and "uploadedFiles s' =
        map (\<lambda>f. if id_uf f = id_uf uploadedFile then currentFile else f) (uploadedFiles s)"
      by simp_all
    with e f st show ?thesis by blast
  qed
  have entries: "f \<in> set (uploadedFiles s) \<or> (status f \<noteq> Uploaded \<and> status f \<noteq> Processing)"
    if "f \<in> set (uploadedFiles s')" for f
  proof (cases "uploadedFiles s' = uploadedFiles s")
    case True
    with that show ?thesis by simp
  next
    case False
    from changed [OF this] that show ?thesis by auto
  qed
  have quiet: "uploadedFiles s'' = uploadedFiles s' \<and> selectedResult s'' = selectedResult s'"
    if "\<not> pollInterval s'" "pending s' = []" "run uploadedFile evs s' = Some s''" for evs s''
    using run_quiet [OF that(3) that(1) that(2)] .
  from frame changed entries quiet show ?thesis by blast
qed

theorem pending_poll_frame_witness:
  "exec example_upload
     (FetchSettles 1 (Files [example_upload\<lparr>status := Processing\<rparr>])) example_polling
   = Some (example_polling\<lparr>pending := []\<rparr>)
   \<and> uploadedFiles (example_polling\<lparr>pending := []\<rparr>) = uploadedFiles example_polling
   \<and> pollInterval (example_polling\<lparr>pending := []\<rparr>) = pollInterval example_polling"
proof -
  have e: "exec example_upload
     (FetchSettles 1 (Files [example_upload\<lparr>status := Processing\<rparr>])) example_polling
   = Some (example_polling\<lparr>pending := []\<rparr>)"
    by (simp add: exec_def poll_settled_def example_polling_def example_loop_eq)
  from pending_poll_frame [OF e] e show ?thesis by simp
qed

text \<open>
  C10 as stated fails where it says that \<open>uploadedFiles\<close> is rewritten only once. When the
  fetch of the first poll is still in flight at 4000 ms, the second poll is started beside
  it. The first settles with the record \<open>analyzed\<close>, its results not yet attached, and
  rewrites the entry; the second settles with the record and its results and rewrites the
  entry again.
\<close>

theorem uploadedFiles_rewritten_twice:
  "run example_upload [Elapse 2000, IntervalFires, Elapse 2000, IntervalFires] example_loop
     = Some example_both_polling
   \<and> uploadedFiles example_both_polling = [example_upload]
   \<and> map_option uploadedFiles
       (run example_upload [FetchSettles 1 (Files [example_unfinished])] example_both_polling)
     = Some [example_unfinished]
   \<and> map_option uploadedFiles
       (run example_upload
          [FetchSettles 1 (Files [example_unfinished]), FetchSettles 2 (Files [example_analyzed])]
          example_both_polling)
     = Some [example_analyzed]
   \<and> example_upload \<noteq> example_unfinished
   \<and> example_unfinished \<noteq> example_analyzed"
  by (simp add: example_both_polling_def example_loop_eq exec_def poll_settled_def
      example_unfinished_def example_analyzed_def example_upload_def)

end
